theory Spec2Isabelle
  imports Complex_Main
begin

section \<open>The addition dataset of play\_math.ipynb\<close>

text \<open>
  The notebook's own logic is the class \<open>AdditionDataset\<close> (constructor, \<open>__len__\<close>,
  \<open>__getitem__\<close>) and the decoding arithmetic of \<open>give_exam\<close>. Python integers are
  unbounded and modelled by \<open>int\<close>; the digit count \<open>ndigit\<close> and list lengths are \<open>nat\<close>.
  Every exception the modelled lines can raise is a value of \<open>error\<close>.

  The entries of \<open>ixes\<close> are 64-bit integers in numpy. \<open>__getitem__\<close> is modelled for
  the indices such an array can hold: every number it computes from an index below
  \<open>10^(2*ndigit)\<close> is at most \<open>2 * 10^ndigit\<close> or a single digit, and the tensors it builds
  hold digits and \<open>-100\<close>. The arithmetic of \<open>give_exam\<close> is on torch's 64-bit tensors and
  is modelled as such: building a tensor from a number outside the 64-bit range raises,
  and products and sums wrap around. A negative \<open>ndigit\<close> makes \<open>10**ndigit\<close> a float,
  which numpy's \<open>permutation\<close> rejects; \<open>ndigit\<close> is a \<open>nat\<close>.
\<close>

datatype error = OverflowError | IndexError | ValueError | RuntimeError

subsection \<open>The expression \<open>int(num*0.2)\<close>\<close>

text \<open>
  \<open>num\<close> is a Python integer and \<open>0.2\<close> a double, so \<open>num*0.2\<close> converts \<open>num\<close> to a
  double (correctly rounded, ties to even; \<open>OverflowError\<close> when the rounded value does
  not fit) and multiplies two doubles (IEEE 754, round to nearest, ties to even).
  \<open>int\<close> truncates the product, and raises \<open>OverflowError\<close> on an infinity.

  The literal \<open>0.2\<close> denotes the double \<open>3602879701896397 / 2^54\<close>. All doubles that
  occur are positive and normal, so a double is represented by a natural number over a
  fixed power of two: \<open>float(num)\<close> by its integer value, the product by its numerator
  over \<open>2^54\<close>. Rounding to the 53 significant bits of a double acts on that numerator.
\<close>

fun bit_length :: "nat \<Rightarrow> nat" where
  "bit_length n = (if n = 0 then 0 else Suc (bit_length (n div 2)))"

declare bit_length.simps [simp del]

definition round53 :: "nat \<Rightarrow> nat" where
  "round53 n =
     (let l = bit_length n in
      if l \<le> 53 then n
      else
        let sh = l - 53;
            q = n div 2 ^ sh;
            r = n mod 2 ^ sh;
            half = 2 ^ (sh - 1)
        in (if half < r \<or> (r = half \<and> odd q) then q + 1 else q) * 2 ^ sh)"

definition double_02 :: nat where
  "double_02 = 3602879701896397"

definition int_num_times_02 :: "nat \<Rightarrow> error + nat" where
  "int_num_times_02 num =
     (let f = round53 num in
      if 2 ^ 1024 \<le> f then Inl OverflowError
      else
        let p = round53 (f * double_02) in
        if 2 ^ 1078 \<le> p then Inl OverflowError
        else Inr (p div 2 ^ 54))"

subsection \<open>The constructor and \<open>__len__\<close>\<close>

text \<open>
  \<open>np.random.RandomState(1337).permutation(num)\<close> is numpy's and not part of the
  repository: the constructor takes its result as the parameter \<open>perm\<close>. What numpy
  promises of it is \<open>permutation_of_range\<close>: the numbers \<open>0, ..., num - 1\<close>, each once.
\<close>

record AdditionDataset =
  split :: string
  ndigit :: nat
  vocab_size :: nat
  block_size :: nat
  ixes :: "int list"

definition permutation_of_range :: "int list \<Rightarrow> nat \<Rightarrow> bool" where
  "permutation_of_range perm num \<longleftrightarrow> distinct perm \<and> set perm = {0..<int num}"

definition AdditionDataset_init :: "int list \<Rightarrow> nat \<Rightarrow> string \<Rightarrow> error + AdditionDataset" where
  "AdditionDataset_init perm nd sp =
     (let num = (10 ^ nd) ^ 2 in
      case int_num_times_02 num of
        Inl e \<Rightarrow> Inl e
      | Inr t \<Rightarrow>
          let num_test = min t 1000 in
          Inr \<lparr> split = sp,
                ndigit = nd,
                vocab_size = 10,
                block_size = nd + nd + nd + 1 - 1,
                ixes = (if sp = ''test'' then take num_test perm else drop num_test perm) \<rparr>)"

definition AdditionDataset_len :: "AdditionDataset \<Rightarrow> nat" where
  "AdditionDataset_len self = length (ixes self)"

subsection \<open>\<open>__getitem__\<close>\<close>

text \<open>Indexing \<open>self.ixes[idx]\<close>: a negative index counts from the end, an index out of
  range raises \<open>IndexError\<close>.\<close>

definition array_index :: "int list \<Rightarrow> int \<Rightarrow> error + int" where
  "array_index arr idx =
     (let pos = (if idx < 0 then idx + int (length arr) else idx) in
      if pos < 0 \<or> int (length arr) \<le> pos then Inl IndexError
      else Inr (arr ! nat pos))"

text \<open>Lines 143 to 145: \<open>nd = 10**self.ndigit\<close>, \<open>a = idx // nd\<close>, \<open>b = idx % nd\<close>
  (floor division, as \<open>div\<close> and \<open>mod\<close> on \<open>int\<close>).\<close>

definition index_to_problem :: "nat \<Rightarrow> int \<Rightarrow> int \<times> int" where
  "index_to_problem nd idx = (idx div 10 ^ nd, idx mod 10 ^ nd)"

text \<open>The conversion \<open>%0wd\<close> of Python's string formatting: the decimal digits, padded
  with zeros on the left to the minimum width \<open>w\<close>; a longer number is not cut; a negative
  number has its sign first, inside the width.\<close>

definition digit_char :: "nat \<Rightarrow> char" where
  "digit_char d = char_of (48 + d)"

fun str_nat :: "nat \<Rightarrow> string" where
  "str_nat n = (if n < 10 then [digit_char n] else str_nat (n div 10) @ [digit_char (n mod 10)])"

declare str_nat.simps [simp del]

definition zero_pad :: "nat \<Rightarrow> string \<Rightarrow> string" where
  "zero_pad w s = replicate (w - length s) (CHR ''0'') @ s"

definition format_0d :: "nat \<Rightarrow> int \<Rightarrow> string" where
  "format_0d w v =
     (if v < 0 then CHR ''-'' # zero_pad (w - 1) (str_nat (nat (- v)))
      else zero_pad w (str_nat (nat v)))"

text \<open>\<open>int(s)\<close> on a one-character string: the digit's value, or \<open>ValueError\<close>.\<close>

definition int_of_char :: "char \<Rightarrow> error + int" where
  "int_of_char ch =
     (let k = (of_char ch :: nat) in
      if 48 \<le> k \<and> k \<le> 57 then Inr (int k - 48) else Inl ValueError)"

text \<open>The comprehension \<open>[int(s) for s in render]\<close> stops at the first error.\<close>

fun ints_of_string :: "string \<Rightarrow> error + int list" where
  "ints_of_string [] = Inr []"
| "ints_of_string (ch # rest) =
     (case int_of_char ch of
        Inl e \<Rightarrow> Inl e
      | Inr d \<Rightarrow> (case ints_of_string rest of Inl e \<Rightarrow> Inl e | Inr ds \<Rightarrow> Inr (d # ds)))"

text \<open>Lines 146 to 148: the sum, the rendered string and its digits.\<close>

definition encode :: "nat \<Rightarrow> int \<Rightarrow> int \<Rightarrow> error + int list" where
  "encode nd a b =
     (let c = a + b;
          render = format_0d nd a @ format_0d nd b @ format_0d (nd + 1) c
      in ints_of_string render)"

text \<open>The slice assignment \<open>y[:k] = v\<close> on a one-dimensional tensor: a negative \<open>k\<close>
  counts from the end, and the stop is clipped to the length.\<close>

definition fill_prefix :: "int \<Rightarrow> int \<Rightarrow> int list \<Rightarrow> int list" where
  "fill_prefix k v ys =
     (let n = int (length ys);
          stop = nat (if k < 0 then max 0 (n + k) else min k n)
      in replicate stop v @ drop stop ys)"

definition AdditionDataset_getitem :: "AdditionDataset \<Rightarrow> int \<Rightarrow> error + (int list \<times> int list)" where
  "AdditionDataset_getitem self idx =
     (case array_index (ixes self) idx of
        Inl e \<Rightarrow> Inl e
      | Inr i \<Rightarrow>
          (case index_to_problem (ndigit self) i of
             (a, b) \<Rightarrow>
               (case encode (ndigit self) a b of
                  Inl e \<Rightarrow> Inl e
                | Inr dix \<Rightarrow>
                    let x = butlast dix;
                        y = fill_prefix (int (ndigit self) * 2 - 1) (- 100) (tl dix)
                    in Inr (x, y))))"

subsection \<open>Decoding in \<open>give_exam\<close>\<close>

text \<open>
  One row of the batch. \<open>sample\<close> belongs to the external library; its output row is the
  parameter \<open>d1d2d3\<close>. The rows \<open>x\<close> and \<open>d1d2d3\<close> are rows of 64-bit tensors
  (\<open>torch.long\<close>), and so is every tensor computed from them: a value is an \<open>int\<close> in
  \<open>[-2^63, 2^63)\<close>, and \<open>wrap64\<close> is the two's complement wrap-around of torch's integer
  arithmetic.

  \<open>torch.tensor\<close> on a list of Python integers gives a 64-bit tensor and raises
  \<open>RuntimeError\<close> (overflow when unpacking) when a number does not fit. The product of a
  row with the row of factors is elementwise, a row of length one is broadcast, and any
  other mismatch of lengths raises \<open>RuntimeError\<close>. Each product wraps, and so does each
  addition of \<open>sum\<close>: the sum is the exact sum wrapped once, whatever the order.
\<close>

definition wrap64 :: "int \<Rightarrow> int" where
  "wrap64 v = (v + 2 ^ 63) mod 2 ^ 64 - 2 ^ 63"

definition torch_tensor :: "int list \<Rightarrow> error + int list" where
  "torch_tensor vs =
     (if list_all (\<lambda>v. - (2 ^ 63) \<le> v \<and> v < 2 ^ 63) vs then Inr vs else Inl RuntimeError)"

definition tensor_mul :: "int list \<Rightarrow> int list \<Rightarrow> error + int list" where
  "tensor_mul ds fs =
     (if length ds = length fs then Inr (map2 (\<lambda>d f. wrap64 (d * f)) ds fs)
      else if length ds = 1 then Inr (map (\<lambda>f. wrap64 (hd ds * f)) fs)
      else if length fs = 1 then Inr (map (\<lambda>d. wrap64 (d * hd fs)) ds)
      else Inl RuntimeError)"

definition mul_sum :: "int list \<Rightarrow> int list \<Rightarrow> error + int" where
  "mul_sum ds fs =
     (case tensor_mul ds fs of Inl e \<Rightarrow> Inl e | Inr ps \<Rightarrow> Inr (wrap64 (sum_list ps)))"

definition give_exam_row :: "nat \<Rightarrow> int list \<Rightarrow> int list \<Rightarrow> error + (int \<times> int \<times> int \<times> int \<times> bool)" where
  "give_exam_row nd x d1d2d3 =
     (let d1d2 = take (nd * 2) x;
          d3 = drop (length d1d2d3 - (nd + 1)) d1d2d3
      in case torch_tensor (rev (map (\<lambda>i. 10 ^ i) [0..<nd + 1])) of
           Inl e \<Rightarrow> Inl e
         | Inr factors \<Rightarrow>
             (case mul_sum (take nd d1d2) (tl factors) of
                Inl e \<Rightarrow> Inl e
              | Inr d1i \<Rightarrow>
                  (case mul_sum (drop nd (take (nd * 2) d1d2)) (tl factors) of
                     Inl e \<Rightarrow> Inl e
                   | Inr d2i \<Rightarrow>
                       (case mul_sum d3 factors of
                          Inl e \<Rightarrow> Inl e
                        | Inr d3i_pred \<Rightarrow>
                            let d3i_gt = wrap64 (d1i + d2i)
                            in Inr (d1i, d2i, d3i_pred, d3i_gt, d3i_pred = d3i_gt)))))"

subsection \<open>Notions used in the statements and proofs\<close>

text \<open>The decimal digits of a natural number as integers (what \<open>ints_of_string\<close> makes
  of \<open>str_nat\<close>), the zero padding on digit lists, and the value of a digit list read
  with the most significant digit first.\<close>

fun nat_digits :: "nat \<Rightarrow> int list" where
  "nat_digits n = (if n < 10 then [int n] else nat_digits (n div 10) @ [int (n mod 10)])"

declare nat_digits.simps [simp del]

definition pad_digits :: "nat \<Rightarrow> int list \<Rightarrow> int list" where
  "pad_digits w ds = replicate (w - length ds) 0 @ ds"

fun be_value :: "int list \<Rightarrow> int" where
  "be_value [] = 0"
| "be_value (d # ds) = d * 10 ^ length ds + be_value ds"

section \<open>Digits, padding and positional value\<close>

text \<open>What \<open>int(s)\<close> makes of the characters that \<open>%0wd\<close> prints, and how the length
  and the positional value of the digits of \<open>n\<close> relate to \<open>n\<close>.\<close>

lemma int_of_char_digit: "d < 10 \<Longrightarrow> int_of_char (digit_char d) = Inr (int d)"
  by (simp add: int_of_char_def digit_char_def Let_def)

lemma int_of_char_minus: "int_of_char (CHR ''-'') = Inl ValueError"
  by (simp add: int_of_char_def)

lemma int_of_char_zero: "int_of_char (CHR ''0'') = Inr 0"
  by (simp add: int_of_char_def)

lemma ints_of_string_append:
  "ints_of_string (s @ t) =
     (case ints_of_string s of
        Inl e \<Rightarrow> Inl e
      | Inr ds \<Rightarrow> (case ints_of_string t of Inl e \<Rightarrow> Inl e | Inr es \<Rightarrow> Inr (ds @ es)))"
  by (induction s) (auto split: sum.splits)

lemma ints_of_string_zeros: "ints_of_string (replicate k (CHR ''0'')) = Inr (replicate k 0)"
  by (induction k) (simp_all add: int_of_char_zero)

lemma ints_of_string_length: "ints_of_string s = Inr ds \<Longrightarrow> length ds = length s"
  by (induction s arbitrary: ds) (auto split: sum.splits)

lemma ints_of_str_nat: "ints_of_string (str_nat n) = Inr (nat_digits n)"
proof (induction n rule: str_nat.induct)
  case (1 n)
  show ?case
  proof (cases "n < 10")
    case True
    then show ?thesis
      by (simp add: str_nat.simps [of n] nat_digits.simps [of n] int_of_char_digit)
  next
    case False
    with 1 show ?thesis
      by (simp add: str_nat.simps [of n] nat_digits.simps [of n] ints_of_string_append
          int_of_char_digit)
  qed
qed

lemma ints_of_zero_pad:
  "ints_of_string (zero_pad w (str_nat n)) = Inr (pad_digits w (nat_digits n))"
proof -
  have "length (nat_digits n) = length (str_nat n)"
    using ints_of_str_nat ints_of_string_length by blast
  then show ?thesis
    by (simp add: zero_pad_def pad_digits_def ints_of_string_append ints_of_string_zeros
        ints_of_str_nat)
qed

lemma nat_digits_nonempty: "0 < length (nat_digits n)"
  by (subst nat_digits.simps) simp

lemma nat_digits_length_le: "0 < k \<Longrightarrow> length (nat_digits n) \<le> k \<longleftrightarrow> n < 10 ^ k"
proof (induction n arbitrary: k rule: nat_digits.induct)
  case (1 n)
  show ?case
  proof (cases "n < 10")
    case True
    have "(10::nat) ^ 1 \<le> 10 ^ k" using 1(2) by (intro power_increasing) simp_all
    with True 1(2) show ?thesis
      by (simp add: nat_digits.simps [of n])
  next
    case False
    show ?thesis
    proof (cases "k = 1")
      case True
      with False nat_digits_nonempty [of "n div 10"] show ?thesis
        by (simp add: nat_digits.simps [of n])
    next
      case k: False
      with 1(2) obtain j where j: "k = Suc j" "0 < j" by (cases k) auto
      have "length (nat_digits (n div 10)) \<le> j \<longleftrightarrow> n div 10 < 10 ^ j"
        using 1(1) [OF False j(2)] .
      moreover have "n div 10 < 10 ^ j \<longleftrightarrow> n < 10 ^ Suc j"
        by (simp add: div_less_iff_less_mult mult.commute)
      ultimately show ?thesis using False j
        by (simp add: nat_digits.simps [of n])
    qed
  qed
qed

lemma be_value_snoc: "be_value (ds @ [d]) = 10 * be_value ds + d"
  by (induction ds) (simp_all add: algebra_simps)

lemma be_value_nat_digits: "be_value (nat_digits n) = int n"
proof (induction n rule: nat_digits.induct)
  case (1 n)
  show ?case
  proof (cases "n < 10")
    case True
    then show ?thesis by (simp add: nat_digits.simps [of n])
  next
    case False
    with 1 have "be_value (nat_digits n) = 10 * int (n div 10) + int (n mod 10)"
      by (simp add: nat_digits.simps [of n] be_value_snoc)
    also have "\<dots> = int n"
      by (simp add: zdiv_int zmod_int)
    finally show ?thesis .
  qed
qed

lemma be_value_zeros: "be_value (replicate k 0 @ ds) = be_value ds"
  by (induction k) simp_all

lemma be_value_pad: "be_value (pad_digits w ds) = be_value ds"
  by (simp add: pad_digits_def be_value_zeros)

lemma nat_digits_range: "d \<in> set (nat_digits n) \<Longrightarrow> 0 \<le> d \<and> d \<le> 9"
proof (induction n rule: nat_digits.induct)
  case (1 n)
  show ?case
  proof (cases "n < 10")
    case True
    with 1(2) show ?thesis by (simp add: nat_digits.simps [of n])
  next
    case False
    with 1 show ?thesis
      by (auto simp add: nat_digits.simps [of n])
  qed
qed

lemma pad_digits_range: "d \<in> set (pad_digits w (nat_digits n)) \<Longrightarrow> 0 \<le> d \<and> d \<le> 9"
  by (auto simp add: pad_digits_def dest: nat_digits_range)

lemma pad_digits_length: "length (pad_digits w ds) = max w (length ds)"
  by (simp add: pad_digits_def)

section \<open>The encoder and the decoding sums\<close>

text \<open>The encoder in closed form: three padded blocks of digits when \<open>a\<close> and \<open>b\<close> are not
  negative, \<open>ValueError\<close> otherwise. The weighted sum of \<open>give_exam\<close> over a block is its
  positional value.\<close>

lemma encode_nonneg:
  assumes "0 \<le> a" "0 \<le> b"
  shows "encode nd a b =
           Inr (pad_digits nd (nat_digits (nat a)) @ pad_digits nd (nat_digits (nat b)) @
                pad_digits (nd + 1) (nat_digits (nat (a + b))))"
  using assms
  by (simp add: encode_def format_0d_def ints_of_string_append ints_of_zero_pad)

lemma encode_negative:
  assumes "a < 0 \<or> b < 0"
  shows "encode nd a b = Inl ValueError"
proof (cases "a < 0")
  case True
  then show ?thesis
    by (simp add: encode_def format_0d_def int_of_char_minus)
next
  case False
  with assms have "b < 0" by simp
  with False show ?thesis
    by (simp add: encode_def format_0d_def ints_of_string_append ints_of_zero_pad
        int_of_char_minus)
qed

lemma pad_nat_digits_length:
  assumes "0 < w" "0 \<le> v" "v < 10 ^ w"
  shows "length (pad_digits w (nat_digits (nat v))) = w"
proof -
  have "nat v < 10 ^ w"
    using assms(2,3) by (simp add: nat_less_iff)
  then have "length (nat_digits (nat v)) \<le> w"
    using nat_digits_length_le [OF assms(1)] by simp
  then show ?thesis
    by (simp add: pad_digits_length)
qed

lemma pad_nat_digits_length_iff:
  assumes "0 < w" "0 \<le> v"
  shows "length (pad_digits w (nat_digits (nat v))) = w \<longleftrightarrow> v < 10 ^ w"
proof -
  have "nat v < 10 ^ w \<longleftrightarrow> v < 10 ^ w"
    using assms(2) by (simp add: nat_less_iff)
  then show ?thesis
    using nat_digits_length_le [OF assms(1), of "nat v"]
    by (auto simp add: pad_digits_length max_def)
qed

lemma pad_nat_digits_value:
  assumes "0 \<le> v"
  shows "be_value (pad_digits w (nat_digits (nat v))) = v"
  using assms by (simp add: be_value_pad be_value_nat_digits)

lemma sum_below_next_power:
  fixes a b :: int
  assumes "a < 10 ^ nd" "b < 10 ^ nd"
  shows "a + b < 10 ^ (nd + 1)"
proof -
  have "(0::int) < 10 ^ nd" by simp
  with assms have "a + b < 10 * 10 ^ nd" by linarith
  then show ?thesis by simp
qed

lemma wrap64_id: "- (2 ^ 63) \<le> v \<Longrightarrow> v < 2 ^ 63 \<Longrightarrow> wrap64 v = v"
  by (simp add: wrap64_def)

lemma wrap64_add_left: "wrap64 (wrap64 a + b) = wrap64 (a + b)"
proof -
  have "wrap64 (wrap64 a + b) = ((a + 2 ^ 63) mod 2 ^ 64 + b) mod 2 ^ 64 - 2 ^ 63"
    by (simp add: wrap64_def)
  also have "\<dots> = (a + 2 ^ 63 + b) mod 2 ^ 64 - 2 ^ 63"
    by (simp only: mod_add_left_eq)
  also have "\<dots> = wrap64 (a + b)"
    by (simp add: wrap64_def ac_simps)
  finally show ?thesis .
qed

lemma wrap64_add_right: "wrap64 (a + wrap64 b) = wrap64 (a + b)"
  using wrap64_add_left [of b a] by (simp add: add.commute)

lemma wrap64_sum_list: "wrap64 (sum_list (map wrap64 xs)) = wrap64 (sum_list xs)"
proof (induction xs)
  case Nil
  show ?case by simp
next
  case (Cons x xs)
  have "wrap64 (sum_list (map wrap64 (x # xs))) = wrap64 (x + wrap64 (sum_list (map wrap64 xs)))"
    by (simp add: wrap64_add_left wrap64_add_right)
  also have "\<dots> = wrap64 (x + wrap64 (sum_list xs))"
    by (simp only: Cons.IH)
  finally show ?case
    by (simp add: wrap64_add_right)
qed

lemma weighted_sum_value:
  "length ds = w \<Longrightarrow> sum_list (map2 (*) ds (rev (map (\<lambda>i. 10 ^ i) [0..<w]))) = be_value ds"
proof (induction ds arbitrary: w)
  case Nil
  then show ?case by simp
next
  case (Cons d ds)
  then obtain v where v: "w = Suc v" "length ds = v" by (cases w) auto
  from Cons.IH [OF v(2)] show ?case
    by (simp add: v)
qed

lemma mul_sum_factors:
  assumes "length ds = w"
  shows "mul_sum ds (rev (map (\<lambda>i. 10 ^ i) [0..<w])) = Inr (wrap64 (be_value ds))"
proof -
  let ?fs = "rev (map (\<lambda>i. (10::int) ^ i) [0..<w])"
  have e: "map2 (\<lambda>d f. wrap64 (d * f)) ds ?fs = map wrap64 (map2 (*) ds ?fs)"
    by (simp add: case_prod_beta)
  have "mul_sum ds ?fs = Inr (wrap64 (sum_list (map2 (\<lambda>d f. wrap64 (d * f)) ds ?fs)))"
    using assms by (simp add: mul_sum_def tensor_mul_def)
  then have "mul_sum ds ?fs = Inr (wrap64 (sum_list (map2 (*) ds ?fs)))"
    by (simp only: e wrap64_sum_list)
  then show ?thesis
    by (simp only: weighted_sum_value [OF assms])
qed

lemma torch_tensor_factors:
  assumes "nd \<le> 18"
  shows "torch_tensor (rev (map (\<lambda>i. 10 ^ i) [0..<nd + 1])) =
           Inr (rev (map (\<lambda>i. 10 ^ i) [0..<nd + 1]))"
proof -
  have "- (2 ^ 63) \<le> (10::int) ^ i \<and> (10::int) ^ i < 2 ^ 63" if "i < nd + 1" for i
  proof -
    have "(10::int) ^ i \<le> 10 ^ 18"
      using that assms by (intro power_increasing) simp_all
    moreover have "(0::int) \<le> 10 ^ i" by simp
    moreover have "(10::int) ^ 18 < 2 ^ 63" "- (2 ^ 63) \<le> (0::int)" by simp_all
    ultimately show ?thesis by linarith
  qed
  then show ?thesis
    by (auto simp add: torch_tensor_def list_all_iff)
qed

lemma give_exam_row_overflow:
  assumes "19 \<le> nd"
  shows "give_exam_row nd x d1d2d3 = Inl RuntimeError"
proof -
  have "(10::int) ^ 19 \<le> 10 ^ nd"
    using assms by (intro power_increasing) simp_all
  then have "\<not> (10::int) ^ nd < 2 ^ 63" by simp
  moreover have "(10::int) ^ nd \<in> set (rev (map (\<lambda>i. 10 ^ i) [0..<nd + 1]))"
    by auto
  ultimately have "torch_tensor (rev (map (\<lambda>i. 10 ^ i) [0..<nd + 1])) = Inl RuntimeError"
    unfolding torch_tensor_def list_all_iff by (metis (no_types, lifting))
  then show ?thesis
    by (simp add: give_exam_row_def)
qed

lemma give_exam_row_blocks:
  assumes "length A = nd" "length B = nd" "length D = nd + 1" and nd: "nd \<le> 18"
  shows "give_exam_row nd (butlast (A @ B @ D)) (A @ B @ D) =
           Inr (wrap64 (be_value A), wrap64 (be_value B), wrap64 (be_value D),
                wrap64 (wrap64 (be_value A) + wrap64 (be_value B)),
                wrap64 (be_value D) = wrap64 (wrap64 (be_value A) + wrap64 (be_value B)))"
proof -
  note tt = torch_tensor_factors [OF nd]
  have D: "D \<noteq> []" using assms(3) by auto
  have x: "butlast (A @ B @ D) = A @ B @ butlast D"
    using D by (simp add: butlast_append)
  have d1d2: "take (nd * 2) (butlast (A @ B @ D)) = A @ B"
    using assms by (simp add: x)
  have d3: "drop (length (A @ B @ D) - (nd + 1)) (A @ B @ D) = D"
    using assms by simp
  have tlf: "tl (rev (map (\<lambda>i. (10::int) ^ i) [0..<nd + 1])) = rev (map (\<lambda>i. 10 ^ i) [0..<nd])"
    by simp
  have s1: "mul_sum (take nd (A @ B)) (rev (map (\<lambda>i. 10 ^ i) [0..<nd])) =
      Inr (wrap64 (be_value A))"
    using assms by (simp add: mul_sum_factors)
  have s2: "mul_sum (drop nd (take (nd * 2) (A @ B))) (rev (map (\<lambda>i. 10 ^ i) [0..<nd])) =
      Inr (wrap64 (be_value B))"
    using assms by (simp add: mul_sum_factors)
  have s3: "mul_sum D (rev (map (\<lambda>i. 10 ^ i) [0..<nd + 1])) = Inr (wrap64 (be_value D))"
    using assms(3) by (rule mul_sum_factors)
  show ?thesis
    unfolding give_exam_row_def Let_def d1d2 d3 tt sum.case tlf s1 s2 s3 by simp
qed

lemma below_int64:
  fixes v :: int
  assumes "nd \<le> 18" "0 \<le> v" "v < 2 * 10 ^ nd"
  shows "wrap64 v = v"
proof -
  have "(10::int) ^ nd \<le> 10 ^ 18"
    using assms(1) by (intro power_increasing) simp_all
  with assms(2,3) show ?thesis
    by (intro wrap64_id) simp_all
qed

lemma encode_length_iff:
  assumes "0 < nd" "0 \<le> a" "0 \<le> b"
  shows "\<exists>dix. encode nd a b = Inr dix \<and> 3 * nd + 1 \<le> length dix \<and>
           (length dix = 3 * nd + 1 \<longleftrightarrow> a < 10 ^ nd \<and> b < 10 ^ nd)"
proof -
  let ?A = "pad_digits nd (nat_digits (nat a))"
  let ?B = "pad_digits nd (nat_digits (nat b))"
  let ?D = "pad_digits (nd + 1) (nat_digits (nat (a + b)))"
  have lower: "nd \<le> length ?A" "nd \<le> length ?B" "nd + 1 \<le> length ?D"
    by (simp_all add: pad_digits_length)
  have A: "length ?A = nd \<longleftrightarrow> a < 10 ^ nd"
    using assms by (intro pad_nat_digits_length_iff)
  have B: "length ?B = nd \<longleftrightarrow> b < 10 ^ nd"
    using assms by (intro pad_nat_digits_length_iff)
  have D: "length ?D = nd + 1 \<longleftrightarrow> a + b < 10 ^ (nd + 1)"
    using assms by (intro pad_nat_digits_length_iff) simp_all
  have "length (?A @ ?B @ ?D) = 3 * nd + 1 \<longleftrightarrow>
      length ?A = nd \<and> length ?B = nd \<and> length ?D = nd + 1"
    using lower by auto
  also have "\<dots> \<longleftrightarrow> a < 10 ^ nd \<and> b < 10 ^ nd"
    unfolding A B D using sum_below_next_power [of a nd b] by blast
  finally have "length (?A @ ?B @ ?D) = 3 * nd + 1 \<longleftrightarrow> a < 10 ^ nd \<and> b < 10 ^ nd" .
  moreover have "3 * nd + 1 \<le> length (?A @ ?B @ ?D)"
    using lower by simp
  moreover have "encode nd a b = Inr (?A @ ?B @ ?D)"
    using assms by (simp add: encode_nonneg)
  ultimately show ?thesis by blast
qed

section \<open>Index arithmetic\<close>

text \<open>Quotient and remainder by \<open>10^ndigit\<close> of an index below \<open>10^(2*ndigit)\<close>.\<close>

lemma ten_pow_double: "(10::int) ^ (2 * nd) = 10 ^ nd * 10 ^ nd"
  by (simp add: power_add mult_2)

lemma div_below_square:
  fixes idx n :: int
  assumes "0 < n" "idx < n * n"
  shows "idx div n < n"
proof (rule ccontr)
  assume "\<not> idx div n < n"
  then have "n * n \<le> (idx div n) * n"
    using assms(1) by (intro mult_right_mono) simp_all
  moreover have "0 \<le> idx mod n"
    using assms(1) by simp
  moreover have "idx = (idx div n) * n + idx mod n"
    by simp
  ultimately show False using assms(2) by linarith
qed

lemma index_to_problem_bounds:
  assumes "0 \<le> idx" "idx < 10 ^ (2 * nd)"
  shows "0 \<le> fst (index_to_problem nd idx) \<and> fst (index_to_problem nd idx) < 10 ^ nd \<and>
         0 \<le> snd (index_to_problem nd idx) \<and> snd (index_to_problem nd idx) < 10 ^ nd"
proof -
  have pos: "(0::int) < 10 ^ nd" by simp
  have "idx < 10 ^ nd * 10 ^ nd"
    using assms(2) by (simp only: ten_pow_double)
  then have "idx div 10 ^ nd < 10 ^ nd"
    using pos by (intro div_below_square)
  moreover have "0 \<le> idx div 10 ^ nd"
    using assms(1) pos by (simp add: pos_imp_zdiv_nonneg_iff)
  ultimately show ?thesis
    using pos by (simp add: index_to_problem_def)
qed

lemma problem_to_index_bounds:
  fixes a b :: int
  assumes "0 \<le> a" "a < 10 ^ nd" "0 \<le> b" "b < 10 ^ nd"
  shows "0 \<le> a * 10 ^ nd + b \<and> a * 10 ^ nd + b < 10 ^ (2 * nd)"
proof -
  have "a + 1 \<le> 10 ^ nd" using assms(2) by simp
  then have "(a + 1) * 10 ^ nd \<le> 10 ^ nd * 10 ^ nd"
    by (intro mult_right_mono) simp_all
  then have "a * 10 ^ nd + 10 ^ nd \<le> 10 ^ (2 * nd)"
    unfolding ten_pow_double by (simp add: algebra_simps)
  with assms show ?thesis by simp
qed

section \<open>Rounding to a double\<close>

text \<open>Rounding keeps a number between the powers of two around it and moves it by at
  most one unit in the last place. This bounds \<open>int(num*0.2)\<close> from below by 1000 once
  \<open>num \<ge> 2^13\<close>, and decides when the conversion of \<open>num\<close> overflows; the product for
  \<open>num = 100\<close> is computed exactly.\<close>

lemma bit_length_upper: "n < 2 ^ bit_length n"
proof (induction n rule: bit_length.induct)
  case (1 n)
  show ?case
  proof (cases "n = 0")
    case True
    then show ?thesis by (simp add: bit_length.simps [of n])
  next
    case False
    with 1 have "n div 2 < 2 ^ bit_length (n div 2)" by simp
    then have "n < 2 * 2 ^ bit_length (n div 2)" by linarith
    with False show ?thesis by (simp add: bit_length.simps [of n])
  qed
qed

lemma bit_length_lower: "0 < n \<Longrightarrow> 2 ^ (bit_length n - 1) \<le> n"
proof (induction n rule: bit_length.induct)
  case (1 n)
  then have n: "n \<noteq> 0" by simp
  show ?case
  proof (cases "n div 2 = 0")
    case True
    with n show ?thesis
      by (simp add: bit_length.simps [of n] bit_length.simps [of 0])
  next
    case False
    with 1 n have ih: "2 ^ (bit_length (n div 2) - 1) \<le> n div 2" by simp
    have "0 < bit_length (n div 2)"
      using False by (simp add: bit_length.simps [of "n div 2"])
    then have "(2::nat) ^ bit_length (n div 2) = 2 * 2 ^ (bit_length (n div 2) - 1)"
      by (cases "bit_length (n div 2)") simp_all
    with ih have "2 ^ bit_length (n div 2) \<le> n" by linarith
    with n show ?thesis by (simp add: bit_length.simps [of n])
  qed
qed

lemma bit_length_le: "n < 2 ^ k \<Longrightarrow> bit_length n \<le> k"
proof (rule ccontr)
  assume n: "n < 2 ^ k" and "\<not> bit_length n \<le> k"
  then have k: "k \<le> bit_length n - 1" by simp
  then have "0 < n" using \<open>\<not> bit_length n \<le> k\<close>
    by (cases "n = 0") (simp_all add: bit_length.simps [of 0])
  then have "2 ^ (bit_length n - 1) \<le> n" by (rule bit_length_lower)
  moreover have "(2::nat) ^ k \<le> 2 ^ (bit_length n - 1)"
    using k by (intro power_increasing) simp_all
  ultimately show False using n by linarith
qed

lemma round53_small: "bit_length n \<le> 53 \<Longrightarrow> round53 n = n"
  by (simp add: round53_def)

lemma round53_ge:
  assumes "2 ^ k \<le> n"
  shows "2 ^ k \<le> round53 n"
proof (cases "bit_length n \<le> 53")
  case True
  with assms show ?thesis by (simp add: round53_small)
next
  case False
  define sh where "sh = bit_length n - 53"
  define q where "q = n div 2 ^ sh"
  have bl: "bit_length n - 1 = 52 + sh"
    using False by (simp add: sh_def)
  have "0 < n" using assms by (cases "n = 0") simp_all
  then have "2 ^ (bit_length n - 1) \<le> n" by (rule bit_length_lower)
  then have low: "2 ^ (52 + sh) \<le> n" by (simp only: bl)
  have "(2::nat) ^ (52 + sh) div 2 ^ sh \<le> n div 2 ^ sh"
    using low by (rule div_le_mono)
  then have "2 ^ 52 \<le> q"
    by (simp add: q_def power_add)
  then have "2 ^ 52 * 2 ^ sh \<le> q * 2 ^ sh"
    by (rule mult_le_mono1)
  then have q: "2 ^ (52 + sh) \<le> q * 2 ^ sh"
    by (simp only: power_add)
  have "n < 2 ^ bit_length n" by (rule bit_length_upper)
  with assms have "(2::nat) ^ k < 2 ^ bit_length n" by linarith
  then have "k < bit_length n" by (simp add: power_strict_increasing_iff)
  then have "k \<le> 52 + sh" using bl by linarith
  then have "(2::nat) ^ k \<le> 2 ^ (52 + sh)"
    by (intro power_increasing) simp_all
  with q have "2 ^ k \<le> q * 2 ^ sh" by linarith
  moreover have "q * 2 ^ sh \<le> round53 n"
    using False by (simp add: round53_def Let_def sh_def q_def)
  ultimately show ?thesis by linarith
qed

lemma round53_le: "round53 n \<le> n + 2 ^ (bit_length n - 53)"
proof (cases "bit_length n \<le> 53")
  case True
  then show ?thesis by (simp add: round53_small)
next
  case False
  define sh where "sh = bit_length n - 53"
  define q where "q = n div 2 ^ sh"
  have "round53 n \<le> (q + 1) * 2 ^ sh"
    using False by (simp add: round53_def Let_def sh_def q_def)
  moreover have "q * 2 ^ sh \<le> n"
    by (simp add: q_def)
  ultimately show ?thesis
    by (simp add: sh_def algebra_simps)
qed

lemma round53_lt:
  assumes "n < 2 ^ k" "53 \<le> k" "n + 2 ^ (k - 53) < m"
  shows "round53 n < m"
proof -
  have "bit_length n \<le> k" using assms(1) by (rule bit_length_le)
  then have "(2::nat) ^ (bit_length n - 53) \<le> 2 ^ (k - 53)"
    by (intro power_increasing) simp_all
  with round53_le [of n] assms(3) show ?thesis by linarith
qed

lemma bit_length_eq:
  assumes "2 ^ k \<le> n" "n < 2 ^ Suc k"
  shows "bit_length n = Suc k"
proof -
  have "bit_length n \<le> Suc k" using assms(2) by (rule bit_length_le)
  moreover have "n < 2 ^ bit_length n" by (rule bit_length_upper)
  with assms(1) have "(2::nat) ^ k < 2 ^ bit_length n" by linarith
  then have "k < bit_length n" by (simp add: power_strict_increasing_iff)
  ultimately show ?thesis by linarith
qed

lemma int_num_times_02_100: "int_num_times_02 100 = Inr 20"
proof -
  have "bit_length 100 \<le> 53"
    by (rule bit_length_le) simp
  then have f: "round53 100 = 100" by (rule round53_small)
  have "bit_length 360287970189639700 = Suc 58"
    by (rule bit_length_eq) simp_all
  then have p: "round53 360287970189639700 = 360287970189639680"
    by (simp add: round53_def)
  show ?thesis
    by (simp add: int_num_times_02_def f double_02_def p)
qed

lemma int_num_times_02_overflow:
  assumes "2 ^ 1024 \<le> num"
  shows "int_num_times_02 num = Inl OverflowError"
  using round53_ge [OF assms] by (simp add: int_num_times_02_def)

lemma int_num_times_02_succeeds:
  assumes "num \<le> 10 ^ 308"
  shows "\<exists>t. int_num_times_02 num = Inr t \<and> (2 ^ 13 \<le> num \<longrightarrow> 1000 \<le> t)"
proof -
  define f where "f = round53 num"
  define p where "p = round53 (f * double_02)"
  have "num < 2 ^ 1024" using assms by simp
  moreover have "num + 2 ^ (1024 - 53) < 2 ^ 1024" using assms by simp
  ultimately have f: "f < 2 ^ 1024"
    unfolding f_def by (intro round53_lt [where k = 1024]) simp_all
  then have "f * double_02 < 2 ^ 1024 * double_02"
    by (simp add: double_02_def)
  also have "\<dots> < 2 ^ 1076"
    by (simp add: double_02_def)
  finally have fc: "f * double_02 < 2 ^ 1076" .
  then have "f * double_02 + 2 ^ (1076 - 53) < 2 ^ 1078" by simp
  with fc have p: "p < 2 ^ 1078"
    unfolding p_def by (intro round53_lt [where k = 1076]) simp_all
  have eq: "int_num_times_02 num = Inr (p div 2 ^ 54)"
    using f p by (simp add: int_num_times_02_def f_def p_def Let_def)
  have "1000 \<le> p div 2 ^ 54" if "2 ^ 13 \<le> num"
  proof -
    have "2 ^ 13 \<le> f" unfolding f_def using that by (rule round53_ge)
    then have "2 ^ 13 * double_02 \<le> f * double_02"
      by (rule mult_le_mono1)
    moreover have "(2::nat) ^ 64 \<le> 2 ^ 13 * double_02"
      by (simp add: double_02_def)
    ultimately have "2 ^ 64 \<le> f * double_02" by linarith
    then have "2 ^ 64 \<le> p" unfolding p_def by (rule round53_ge)
    then have "(2::nat) ^ 64 div 2 ^ 54 \<le> p div 2 ^ 54" by (rule div_le_mono)
    then show ?thesis by simp
  qed
  with eq show ?thesis by blast
qed

section \<open>The constructor\<close>

text \<open>Given the permutation, the lines of the constructor that follow it return a
  dataset exactly when \<open>ndigit \<le> 154\<close>: from \<open>ndigit = 155\<close> on, \<open>num = 10^(2*ndigit)\<close> is
  too large for a double and \<open>num*0.2\<close> raises \<open>OverflowError\<close>. numpy itself, which is
  outside this model, cannot build the permutation once \<open>num\<close> exceeds its 64-bit
  integers (\<open>ndigit \<ge> 10\<close>), so the real constructor raises there before it reaches
  these lines. A dataset that is returned keeps its indices within the permutation.\<close>

lemma num_small: "nd \<le> 154 \<Longrightarrow> ((10::nat) ^ nd) ^ 2 \<le> 10 ^ 308"
proof -
  assume "nd \<le> 154"
  then have "(10::nat) ^ (nd * 2) \<le> 10 ^ 308"
    by (intro power_increasing) simp_all
  then show ?thesis by (simp only: power_mult)
qed

lemma num_large: "155 \<le> nd \<Longrightarrow> 2 ^ 1024 \<le> ((10::nat) ^ nd) ^ 2"
proof -
  assume "155 \<le> nd"
  then have "(10::nat) ^ 310 \<le> 10 ^ (nd * 2)"
    by (intro power_increasing) simp_all
  moreover have "(2::nat) ^ 1024 \<le> 10 ^ 310" by simp
  ultimately have "(2::nat) ^ 1024 \<le> 10 ^ (nd * 2)" by (rule order_trans [rotated])
  then show ?thesis by (simp only: power_mult)
qed

lemma AdditionDataset_init_succeeds_iff:
  "(\<exists>ds. AdditionDataset_init perm nd sp = Inr ds) \<longleftrightarrow> nd \<le> 154"
proof (cases "nd \<le> 154")
  case True
  from int_num_times_02_succeeds [OF num_small [OF True]]
  obtain t where "int_num_times_02 ((10 ^ nd) ^ 2) = Inr t" by blast
  with True show ?thesis
    by (simp add: AdditionDataset_init_def Let_def)
next
  case False
  then have "155 \<le> nd" by simp
  from int_num_times_02_overflow [OF num_large [OF this]] False
  show ?thesis
    by (simp add: AdditionDataset_init_def Let_def)
qed

lemma num_test_value:
  assumes "1 \<le> nd" "int_num_times_02 ((10 ^ nd) ^ 2) = Inr t"
  shows "min t 1000 = (if nd = 1 then 20 else 1000)"
proof (cases "nd = 1")
  case True
  with assms(2) int_num_times_02_100 show ?thesis by simp
next
  case False
  with assms(1) have nd: "2 \<le> nd" by simp
  have "nd \<le> 154"
  proof (rule ccontr)
    assume "\<not> nd \<le> 154"
    then have "155 \<le> nd" by simp
    from int_num_times_02_overflow [OF num_large [OF this]] assms(2)
    show False by simp
  qed
  from int_num_times_02_succeeds [OF num_small [OF this]] assms(2)
  have imp: "2 ^ 13 \<le> ((10::nat) ^ nd) ^ 2 \<longrightarrow> 1000 \<le> t" by simp
  have "(10::nat) ^ 2 \<le> 10 ^ nd"
    using nd by (intro power_increasing) simp_all
  then have "((10::nat) ^ 2) ^ 2 \<le> (10 ^ nd) ^ 2"
    by (rule power_mono) simp
  then have "2 ^ 13 \<le> ((10::nat) ^ nd) ^ 2" by simp
  with imp have "1000 \<le> t" by simp
  with False show ?thesis by simp
qed

lemma ten_thousand_le_num: "2 \<le> nd \<Longrightarrow> 10000 \<le> ((10::nat) ^ nd) ^ 2"
proof -
  assume "2 \<le> nd"
  then have "(10::nat) ^ 2 \<le> 10 ^ nd"
    by (intro power_increasing) simp_all
  then have "((10::nat) ^ 2) ^ 2 \<le> (10 ^ nd) ^ 2"
    by (rule power_mono) simp
  then show ?thesis by simp
qed

lemma floor_fifth_large:
  assumes "2 \<le> nd"
  shows "1000 \<le> nat \<lfloor>0.2 * 10 ^ (2 * nd) :: real\<rfloor>"
proof -
  define v :: real where "v = 0.2 * 10 ^ (2 * nd)"
  have "(10::real) ^ 4 \<le> 10 ^ (2 * nd)"
    using assms by (intro power_increasing) simp_all
  then have "of_int 1000 \<le> v" by (simp add: v_def)
  then have "1000 \<le> \<lfloor>v\<rfloor>" by (simp only: le_floor_iff)
  then have "1000 \<le> nat \<lfloor>v\<rfloor>" by linarith
  then show ?thesis by (simp only: v_def)
qed

lemma AdditionDataset_init_Inr:
  assumes "AdditionDataset_init perm nd sp = Inr ds"
  shows "\<exists>t. int_num_times_02 ((10 ^ nd) ^ 2) = Inr t \<and>
             ds = \<lparr> split = sp, ndigit = nd, vocab_size = 10, block_size = 3 * nd,
                    ixes = (if sp = ''test'' then take (min t 1000) perm
                            else drop (min t 1000) perm) \<rparr>"
  using assms
  by (auto simp add: AdditionDataset_init_def Let_def split: sum.splits)

lemma permutation_of_range_length:
  assumes "permutation_of_range perm num"
  shows "length perm = num"
proof -
  have "distinct perm" and s: "set perm = {0..<int num}"
    using assms by (simp_all add: permutation_of_range_def)
  then have "card (set perm) = length perm"
    by (intro distinct_card)
  then show ?thesis
    unfolding s by simp
qed

lemma AdditionDataset_init_invariant:
  assumes "permutation_of_range perm ((10 ^ nd) ^ 2)"
    and "AdditionDataset_init perm nd sp = Inr ds"
  shows "ndigit ds = nd \<and> vocab_size ds = 10 \<and> block_size ds = 3 * nd \<and>
         set (ixes ds) \<subseteq> {0..<10 ^ (2 * nd)}"
proof -
  from AdditionDataset_init_Inr [OF assms(2)] obtain t where
    ds: "ds = \<lparr> split = sp, ndigit = nd, vocab_size = 10, block_size = 3 * nd,
                ixes = (if sp = ''test'' then take (min t 1000) perm
                        else drop (min t 1000) perm) \<rparr>"
    by blast
  have "set perm = {0..<int ((10 ^ nd) ^ 2)}"
    using assms(1) by (simp add: permutation_of_range_def)
  moreover have "int ((10 ^ nd) ^ 2) = 10 ^ (2 * nd)"
    by (simp add: power_mult mult.commute flip: power_mult)
  ultimately have "set perm = {0..<10 ^ (2 * nd)}" by simp
  moreover have "set (ixes ds) \<subseteq> set perm"
    by (simp add: ds set_take_subset set_drop_subset)
  ultimately show ?thesis by (simp add: ds)
qed

section \<open>Reading an item\<close>

text \<open>\<open>__getitem__\<close> at a valid index of a dataset whose indices are below
  \<open>10^(2*ndigit)\<close>, in closed form.\<close>

lemma array_index_valid:
  assumes "- int (length arr) \<le> i" "i < int (length arr)"
  shows "\<exists>k\<in>set arr. array_index arr i = Inr k"
proof (cases "i < 0")
  case True
  with assms have "nat (i + int (length arr)) < length arr" by linarith
  then have "arr ! nat (i + int (length arr)) \<in> set arr" by (rule nth_mem)
  with True assms show ?thesis
    by (simp add: array_index_def Let_def)
next
  case False
  with assms have "nat i < length arr" by linarith
  then have "arr ! nat i \<in> set arr" by (rule nth_mem)
  with False assms show ?thesis
    by (simp add: array_index_def Let_def)
qed

lemma fill_prefix_within:
  "k \<le> length ys \<Longrightarrow> fill_prefix (int k) v ys = replicate k v @ drop k ys"
  by (simp add: fill_prefix_def Let_def min_def)

lemma getitem_valid:
  assumes nd: "1 \<le> ndigit ds"
    and rng: "set (ixes ds) \<subseteq> {0..<10 ^ (2 * ndigit ds)}"
    and lo: "- int (length (ixes ds)) \<le> i" and hi: "i < int (length (ixes ds))"
  shows "\<exists>k dix. k \<in> set (ixes ds) \<and> array_index (ixes ds) i = Inr k \<and>
           encode (ndigit ds) (fst (index_to_problem (ndigit ds) k))
             (snd (index_to_problem (ndigit ds) k)) = Inr dix \<and>
           length dix = 3 * ndigit ds + 1 \<and> (\<forall>d\<in>set dix. 0 \<le> d \<and> d \<le> 9) \<and>
           AdditionDataset_getitem ds i =
             Inr (butlast dix, replicate (2 * ndigit ds - 1) (- 100) @ drop (2 * ndigit ds - 1) (tl dix))"
proof -
  let ?n = "ndigit ds"
  from array_index_valid [OF lo hi] obtain k where
    k: "k \<in> set (ixes ds)" "array_index (ixes ds) i = Inr k" by blast
  obtain a b where ab: "index_to_problem ?n k = (a, b)" by (cases "index_to_problem ?n k")
  from k(1) rng have "0 \<le> k" "k < 10 ^ (2 * ?n)" by auto
  from index_to_problem_bounds [OF this] ab
  have r: "0 \<le> a" "a < 10 ^ ?n" "0 \<le> b" "b < 10 ^ ?n" by simp_all
  have c: "0 \<le> a + b" "a + b < 10 ^ (?n + 1)"
    using r sum_below_next_power by simp_all
  have pos: "0 < ?n" using nd by simp
  define dix where "dix = pad_digits ?n (nat_digits (nat a)) @ pad_digits ?n (nat_digits (nat b)) @
                pad_digits (?n + 1) (nat_digits (nat (a + b)))"
  have enc: "encode ?n a b = Inr dix"
    using r by (simp add: encode_nonneg dix_def)
  have len: "length dix = 3 * ?n + 1"
    using r c pos by (simp add: dix_def pad_nat_digits_length)
  have dig: "\<forall>d\<in>set dix. 0 \<le> d \<and> d \<le> 9"
    by (auto simp add: dix_def dest: pad_digits_range)
  have "int ?n * 2 - 1 = int (2 * ?n - 1)"
    using pos by simp
  moreover have "2 * ?n - 1 \<le> length (tl dix)"
    using len by simp
  ultimately have fp: "fill_prefix (int ?n * 2 - 1) (- 100) (tl dix) =
      replicate (2 * ?n - 1) (- 100) @ drop (2 * ?n - 1) (tl dix)"
    by (simp only: fill_prefix_within)
  have "AdditionDataset_getitem ds i =
      Inr (butlast dix, replicate (2 * ?n - 1) (- 100) @ drop (2 * ?n - 1) (tl dix))"
    by (simp add: AdditionDataset_getitem_def k(2) ab enc fp)
  with k ab enc len dig show ?thesis by auto
qed

section \<open>A concrete dataset\<close>

text \<open>One-digit addition over the permutation \<open>99, 98, ..., 0\<close>: the test split holds
  the indices \<open>99, ..., 80\<close>, the train split the remaining eighty.\<close>

lemma example_permutation: "permutation_of_range (rev [0..99]) ((10 ^ 1) ^ 2)"
proof -
  have "distinct (rev [0..99])"
    by (simp only: distinct_rev distinct_upto)
  moreover have "set (rev [0..99]) = {0..99::int}"
    by (simp only: set_rev set_upto)
  moreover have "{0..99::int} = {0..<int ((10 ^ 1) ^ 2)}"
    by auto
  ultimately show ?thesis
    by (simp only: permutation_of_range_def)
qed

lemma example_test_dataset:
  "AdditionDataset_init (rev [0..99]) 1 ''test'' =
     Inr \<lparr> split = ''test'', ndigit = 1, vocab_size = 10, block_size = 3,
           ixes = take 20 (rev [0..99]) \<rparr>"
  by (simp add: AdditionDataset_init_def int_num_times_02_100)

lemma example_train_dataset:
  "AdditionDataset_init (rev [0..99]) 1 ''train'' =
     Inr \<lparr> split = ''train'', ndigit = 1, vocab_size = 10, block_size = 3,
           ixes = drop 20 (rev [0..99]) \<rparr>"
  by (simp add: AdditionDataset_init_def int_num_times_02_100)

lemma example_test_len:
  "AdditionDataset_len \<lparr> split = ''test'', ndigit = 1, vocab_size = 10, block_size = 3,
           ixes = take 20 (rev [0..99]) \<rparr> = 20"
  by (simp add: AdditionDataset_len_def)

section \<open>The claims\<close>

text \<open>
  Claim C1 (round trip of the codec), as amended. The claim reads: for every
  \<open>ndigit \<ge> 1\<close>. The decoding of \<open>give_exam\<close> is on 64-bit tensors, and the factor
  \<open>10^ndigit\<close> fits only up to \<open>ndigit = 18\<close>. What holds: for every \<open>ndigit\<close> from 1 to 18
  and all \<open>a\<close>, \<open>b\<close> with \<open>0 \<le> a, b < 10^ndigit\<close>, encoding succeeds, and decoding the
  encoded sequence as \<open>give_exam\<close> does (the input row is the sequence without its last
  digit, the sampled row is the whole sequence; the first \<open>ndigit\<close> digits, the next
  \<open>ndigit\<close> digits and the last \<open>ndigit + 1\<close> digits are each summed with the powers of ten
  as weights) gives back \<open>a\<close>, \<open>b\<close> and \<open>a + b\<close>; the predicted and the true sum agree.
\<close>

theorem codec_round_trip:
  assumes "1 \<le> nd" "nd \<le> 18" "0 \<le> a" "a < 10 ^ nd" "0 \<le> b" "b < 10 ^ nd"
  shows "\<exists>dix. encode nd a b = Inr dix \<and>
               give_exam_row nd (butlast dix) dix = Inr (a, b, a + b, a + b, True)"
proof -
  let ?A = "pad_digits nd (nat_digits (nat a))"
  let ?B = "pad_digits nd (nat_digits (nat b))"
  let ?D = "pad_digits (nd + 1) (nat_digits (nat (a + b)))"
  have nd: "0 < nd" using assms(1) by simp
  have c: "0 \<le> a + b" "a + b < 10 ^ (nd + 1)"
    using assms sum_below_next_power by simp_all
  have lens: "length ?A = nd" "length ?B = nd" "length ?D = nd + 1"
    using assms nd c by (simp_all add: pad_nat_digits_length)
  have vals: "be_value ?A = a" "be_value ?B = b" "be_value ?D = a + b"
    using assms c(1) by (simp_all add: pad_nat_digits_value)
  have pos: "(0::int) < 10 ^ nd" by simp
  have w: "wrap64 a = a" "wrap64 b = b" "wrap64 (a + b) = a + b"
    using assms pos by (simp_all add: below_int64 [of nd])
  have "encode nd a b = Inr (?A @ ?B @ ?D)"
    using assms by (simp add: encode_nonneg)
  moreover have "give_exam_row nd (butlast (?A @ ?B @ ?D)) (?A @ ?B @ ?D) =
      Inr (a, b, a + b, a + b, True)"
    using give_exam_row_blocks [OF lens assms(2)] by (simp only: vals w simp_thms)
  ultimately show ?thesis by blast
qed

theorem codec_round_trip_witness:
  "encode 2 6 39 = Inr [0, 6, 3, 9, 0, 4, 5] \<and>
   give_exam_row 2 (butlast [0, 6, 3, 9, 0, 4, 5]) [0, 6, 3, 9, 0, 4, 5] = Inr (6, 39, 45, 45, True)"
proof -
  have e: "encode 2 6 39 = Inr [0, 6, 3, 9, 0, 4, 5]"
    by code_simp
  from codec_round_trip [of 2 6 39] e show ?thesis by simp
qed

text \<open>The claim as stated fails at \<open>ndigit = 19\<close>, \<open>a = b = 0\<close>: the encoding is 58 zeros,
  and decoding it raises, because \<open>torch.tensor\<close> cannot hold the factor \<open>10^19\<close>.\<close>

theorem codec_round_trip_counterexample:
  "encode 19 0 0 = Inr (replicate 58 0) \<and>
   give_exam_row 19 (butlast (replicate 58 0)) (replicate 58 0) = Inl RuntimeError \<and>
   give_exam_row 19 (butlast (replicate 58 0)) (replicate 58 0) \<noteq> Inr (0, 0, 0 + 0, 0 + 0, True)"
proof -
  have "encode 19 0 0 = Inr (replicate 58 0)"
    by code_simp
  moreover have "give_exam_row 19 (butlast (replicate 58 0)) (replicate 58 0) = Inl RuntimeError"
    by (rule give_exam_row_overflow) simp
  ultimately show ?thesis by simp
qed

text \<open>
  Claim C2 (split partition). Let \<open>perm\<close> be a permutation of the \<open>10^(2*ndigit)\<close>
  problem indices. The index sets of the dataset constructed with split \<open>test\<close> and of the
  one constructed with split \<open>train\<close> are disjoint, and their union is
  \<open>{0, ..., 10^(2*ndigit) - 1}\<close>. (The statement is about datasets that are constructed:
  numpy has returned \<open>perm\<close> and the constructor has returned.)
\<close>

theorem split_partition:
  assumes "permutation_of_range perm ((10 ^ nd) ^ 2)"
    and "AdditionDataset_init perm nd ''test'' = Inr te"
    and "AdditionDataset_init perm nd ''train'' = Inr tr"
  shows "set (ixes te) \<inter> set (ixes tr) = {} \<and>
         set (ixes te) \<union> set (ixes tr) = {0..<10 ^ (2 * nd)}"
proof -
  from AdditionDataset_init_Inr [OF assms(2)] AdditionDataset_init_Inr [OF assms(3)]
  obtain t where te: "ixes te = take (min t 1000) perm" and tr: "ixes tr = drop (min t 1000) perm"
    by auto
  have d: "distinct perm" and s: "set perm = {0..<int ((10 ^ nd) ^ 2)}"
    using assms(1) by (simp_all add: permutation_of_range_def)
  have "set (ixes te) \<inter> set (ixes tr) = {}"
    unfolding te tr using d by (rule set_take_disj_set_drop_if_distinct) simp
  moreover have "set (ixes te) \<union> set (ixes tr) = set perm"
    unfolding te tr by (simp flip: set_append)
  moreover have "int ((10 ^ nd) ^ 2) = 10 ^ (2 * nd)"
    by (simp add: power_mult mult.commute flip: power_mult)
  ultimately show ?thesis using s by simp
qed

theorem split_partition_witness:
  "permutation_of_range (rev [0..99]) ((10 ^ 1) ^ 2) \<and>
   (\<exists>te tr. AdditionDataset_init (rev [0..99]) 1 ''test'' = Inr te \<and>
            AdditionDataset_init (rev [0..99]) 1 ''train'' = Inr tr \<and>
            set (ixes te) \<inter> set (ixes tr) = {} \<and>
            set (ixes te) \<union> set (ixes tr) = {0..<10 ^ (2 * 1)})"
  using example_permutation example_test_dataset example_train_dataset
    split_partition [OF example_permutation example_test_dataset example_train_dataset]
  by blast

text \<open>
  Claim C3 (size of the test set). For every \<open>ndigit \<ge> 1\<close>, the length of the dataset
  constructed with split \<open>test\<close> is \<open>min(floor(0.2 * 10^(2*ndigit)), 1000)\<close>, although
  the code computes \<open>int(num*0.2)\<close> in double precision: the rounded product is exactly
  20 for \<open>ndigit = 1\<close> and at least 1000 from \<open>ndigit = 2\<close> on.
\<close>

theorem test_set_size:
  assumes "1 \<le> nd"
    and "permutation_of_range perm ((10 ^ nd) ^ 2)"
    and "AdditionDataset_init perm nd ''test'' = Inr ds"
  shows "AdditionDataset_len ds = min (nat \<lfloor>0.2 * 10 ^ (2 * nd) :: real\<rfloor>) 1000"
proof -
  from AdditionDataset_init_Inr [OF assms(3)] obtain t where
    t: "int_num_times_02 ((10 ^ nd) ^ 2) = Inr t" and ix: "ixes ds = take (min t 1000) perm"
    by auto
  have len: "length perm = (10 ^ nd) ^ 2"
    using assms(2) by (rule permutation_of_range_length)
  have nt: "min t 1000 = (if nd = 1 then 20 else 1000)"
    using assms(1) t by (rule num_test_value)
  show ?thesis
  proof (cases "nd = 1")
    case True
    then show ?thesis
      by (simp add: AdditionDataset_len_def ix nt len)
  next
    case False
    with assms(1) have nd: "2 \<le> nd" by simp
    from ten_thousand_le_num [OF nd] have "AdditionDataset_len ds = 1000"
      using False by (simp add: AdditionDataset_len_def ix nt len)
    with floor_fifth_large [OF nd] show ?thesis by simp
  qed
qed

theorem test_set_size_witness:
  "(1::nat) \<le> 1 \<and> permutation_of_range (rev [0..99]) ((10 ^ 1) ^ 2) \<and>
   (\<exists>ds. AdditionDataset_init (rev [0..99]) 1 ''test'' = Inr ds \<and>
         AdditionDataset_len ds = min (nat \<lfloor>0.2 * 10 ^ (2 * 1) :: real\<rfloor>) 1000 \<and>
         AdditionDataset_len ds = 20)"
proof -
  have h: "(1::nat) \<le> 1" by simp
  from test_set_size [OF h example_permutation example_test_dataset]
    h example_permutation example_test_dataset example_test_len
  show ?thesis by blast
qed

text \<open>
  Claim C4 (construction of the training pair). For every valid index \<open>i\<close> of a
  constructed dataset (\<open>-len \<le> i < len\<close>, as Python indexes), \<open>__getitem__\<close> returns a pair
  \<open>(x, y)\<close> where, for the encoded sequence \<open>dix\<close> of length \<open>3*ndigit + 1\<close> of the problem
  stored at \<open>i\<close>: \<open>x\<close> is \<open>dix\<close> without its last digit; \<open>y\<close> is as long as \<open>dix\<close> without
  its first digit; the positions of \<open>y\<close> below \<open>2*ndigit - 1\<close> hold \<open>-100\<close>; every later
  position holds the next digit of \<open>dix\<close>, which is not \<open>-100\<close>.
\<close>

theorem training_pair:
  assumes "1 \<le> nd"
    and "permutation_of_range perm ((10 ^ nd) ^ 2)"
    and "AdditionDataset_init perm nd sp = Inr ds"
    and "- int (AdditionDataset_len ds) \<le> i" and "i < int (AdditionDataset_len ds)"
  shows "\<exists>k dix x y.
           array_index (ixes ds) i = Inr k \<and>
           encode nd (fst (index_to_problem nd k)) (snd (index_to_problem nd k)) = Inr dix \<and>
           length dix = 3 * nd + 1 \<and>
           AdditionDataset_getitem ds i = Inr (x, y) \<and>
           x = butlast dix \<and>
           length y = length (tl dix) \<and>
           (\<forall>j<length y. (j < 2 * nd - 1 \<longrightarrow> y ! j = - 100) \<and>
                          (2 * nd - 1 \<le> j \<longrightarrow> y ! j = tl dix ! j \<and> y ! j \<noteq> - 100))"
proof -
  from AdditionDataset_init_invariant [OF assms(2,3)]
  have inv: "ndigit ds = nd" "set (ixes ds) \<subseteq> {0..<10 ^ (2 * nd)}" by simp_all
  have "\<exists>k dix. k \<in> set (ixes ds) \<and> array_index (ixes ds) i = Inr k \<and>
           encode (ndigit ds) (fst (index_to_problem (ndigit ds) k))
             (snd (index_to_problem (ndigit ds) k)) = Inr dix \<and>
           length dix = 3 * ndigit ds + 1 \<and> (\<forall>d\<in>set dix. 0 \<le> d \<and> d \<le> 9) \<and>
           AdditionDataset_getitem ds i =
             Inr (butlast dix, replicate (2 * ndigit ds - 1) (- 100) @ drop (2 * ndigit ds - 1) (tl dix))"
    using assms(1,4,5) inv by (intro getitem_valid) (simp_all add: AdditionDataset_len_def)
  then obtain k dix where
    k: "array_index (ixes ds) i = Inr k"
    and enc: "encode nd (fst (index_to_problem nd k)) (snd (index_to_problem nd k)) = Inr dix"
    and len: "length dix = 3 * nd + 1"
    and dig: "\<forall>d\<in>set dix. 0 \<le> d \<and> d \<le> 9"
    and get: "AdditionDataset_getitem ds i =
             Inr (butlast dix, replicate (2 * nd - 1) (- 100) @ drop (2 * nd - 1) (tl dix))"
    unfolding inv(1) by blast
  define y where "y = replicate (2 * nd - 1) (- 100) @ drop (2 * nd - 1) (tl dix)"
  have ylen: "length y = length (tl dix)"
    using len by (simp add: y_def)
  have pos: "\<forall>j<length y. (j < 2 * nd - 1 \<longrightarrow> y ! j = - 100) \<and>
                          (2 * nd - 1 \<le> j \<longrightarrow> y ! j = tl dix ! j \<and> y ! j \<noteq> - 100)"
  proof (intro allI impI conjI)
    fix j assume "j < length y" "j < 2 * nd - 1"
    then show "y ! j = - 100" by (simp add: y_def nth_append)
  next
    fix j assume j: "j < length y" "2 * nd - 1 \<le> j"
    then show eq: "y ! j = tl dix ! j"
      using ylen by (simp add: y_def nth_append)
    have "tl dix ! j \<in> set (tl dix)"
      using j(1) ylen by (intro nth_mem) simp
    then have "tl dix ! j \<in> set dix"
      by (rule list.set_sel(2) [rotated]) (use len in auto)
    with dig have "0 \<le> tl dix ! j" by blast
    with eq show "y ! j \<noteq> - 100" by simp
  qed
  from k enc len get ylen pos show ?thesis
    unfolding y_def [symmetric] by blast
qed

theorem training_pair_witness:
  "(1::nat) \<le> 1 \<and> permutation_of_range (rev [0..99]) ((10 ^ 1) ^ 2) \<and>
   (\<exists>ds. AdditionDataset_init (rev [0..99]) 1 ''test'' = Inr ds \<and>
      - int (AdditionDataset_len ds) \<le> 0 \<and> 0 < int (AdditionDataset_len ds) \<and>
      (\<exists>k dix x y.
           array_index (ixes ds) 0 = Inr k \<and>
           encode 1 (fst (index_to_problem 1 k)) (snd (index_to_problem 1 k)) = Inr dix \<and>
           length dix = 3 * 1 + 1 \<and>
           AdditionDataset_getitem ds 0 = Inr (x, y) \<and>
           x = butlast dix \<and>
           length y = length (tl dix) \<and>
           (\<forall>j<length y. (j < 2 * 1 - 1 \<longrightarrow> y ! j = - 100) \<and>
                          (2 * 1 - 1 \<le> j \<longrightarrow> y ! j = tl dix ! j \<and> y ! j \<noteq> - 100))))"
proof -
  let ?ds = "\<lparr> split = ''test'', ndigit = 1, vocab_size = 10, block_size = 3,
           ixes = take 20 (rev [0..99]) \<rparr>"
  have h: "(1::nat) \<le> 1" by simp
  have lo: "- int (AdditionDataset_len ?ds) \<le> 0" by simp
  have hi: "0 < int (AdditionDataset_len ?ds)" unfolding example_test_len by simp
  from training_pair [OF h example_permutation example_test_dataset lo hi]
    h example_permutation example_test_dataset lo hi
  show ?thesis by blast
qed

text \<open>
  Claim C5 (bijection between indices and problems). The map
  \<open>idx \<mapsto> (idx // 10^ndigit, idx % 10^ndigit)\<close> is a bijection from \<open>[0, 10^(2*ndigit))\<close>
  onto the pairs \<open>(a, b)\<close> with \<open>a\<close> and \<open>b\<close> in \<open>[0, 10^ndigit)\<close>.
\<close>

theorem index_to_problem_bijection:
  "bij_betw (index_to_problem nd) {0..<10 ^ (2 * nd)} ({0..<10 ^ nd} \<times> {0..<10 ^ nd})"
proof (rule bij_betw_byWitness [where f' = "\<lambda>(a, b). a * 10 ^ nd + b"])
  show "\<forall>idx\<in>{0..<10 ^ (2 * nd)}. (\<lambda>(a, b). a * 10 ^ nd + b) (index_to_problem nd idx) = idx"
    by (simp add: index_to_problem_def mult.commute)
  show "\<forall>p\<in>{0..<10 ^ nd} \<times> {0..<10 ^ nd}. index_to_problem nd ((\<lambda>(a, b). a * 10 ^ nd + b) p) = p"
    by (auto simp add: index_to_problem_def)
  show "index_to_problem nd ` {0..<10 ^ (2 * nd)} \<subseteq> {0..<10 ^ nd} \<times> {0..<10 ^ nd}"
  proof
    fix p assume "p \<in> index_to_problem nd ` {0..<10 ^ (2 * nd)}"
    then obtain idx where idx: "p = index_to_problem nd idx" "0 \<le> idx" "idx < 10 ^ (2 * nd)"
      by auto
    from index_to_problem_bounds [OF idx(2,3)] idx(1)
    show "p \<in> {0..<10 ^ nd} \<times> {0..<10 ^ nd}"
      by (simp add: mem_Times_iff)
  qed
  show "(\<lambda>(a, b). a * 10 ^ nd + b) ` ({0..<10 ^ nd} \<times> {0..<10 ^ nd}) \<subseteq> {0..<(10::int) ^ (2 * nd)}"
    using problem_to_index_bounds [of _ nd] by auto
qed

text \<open>
  Claim C6 (length of the encoded sequence). For every \<open>ndigit \<ge> 1\<close> and all \<open>a\<close>, \<open>b\<close>
  in \<open>[0, 10^ndigit)\<close>, the encoded sequence has exactly \<open>3 * ndigit + 1\<close> elements and
  each of them is a decimal digit between 0 and 9.
\<close>

theorem encoded_length_and_digits:
  assumes "1 \<le> nd" "0 \<le> a" "a < 10 ^ nd" "0 \<le> b" "b < 10 ^ nd"
  shows "\<exists>dix. encode nd a b = Inr dix \<and> length dix = 3 * nd + 1 \<and>
               (\<forall>d \<in> set dix. 0 \<le> d \<and> d \<le> 9)"
proof -
  have nd: "0 < nd" using assms(1) by simp
  have c: "0 \<le> a + b" "a + b < 10 ^ (nd + 1)"
    using assms sum_below_next_power by simp_all
  show ?thesis
    using assms nd c
    by (auto simp add: encode_nonneg pad_nat_digits_length dest: pad_digits_range)
qed

theorem encoded_length_and_digits_witness:
  "encode 2 85 50 = Inr [8, 5, 5, 0, 1, 3, 5] \<and> length [8, 5, 5, 0, 1, 3, 5 :: int] = 3 * 2 + 1"
proof -
  have e: "encode 2 85 50 = Inr [8, 5, 5, 0, 1, 3, 5]"
    by code_simp
  from encoded_length_and_digits [of 2 85 50] e show ?thesis by simp
qed

text \<open>
  Claim C7 (when encoding fails), as amended. The claim reads: encoding fails if and only
  if \<open>a\<close> or \<open>b\<close> exceeds \<open>10^ndigit - 1\<close>. The code checks nothing of the kind: \<open>%0wd\<close>
  pads to a minimum width and never cuts, so a larger operand gives a longer sequence and
  no error. What holds for \<open>ndigit \<ge> 1\<close>: encoding raises (\<open>ValueError\<close>, on the minus
  sign) exactly when \<open>a\<close> or \<open>b\<close> is negative; for non-negative \<open>a\<close>, \<open>b\<close> it succeeds
  with at least \<open>3*ndigit + 1\<close> digits, and with exactly \<open>3*ndigit + 1\<close> digits if and
  only if \<open>a\<close> and \<open>b\<close> are both at most \<open>10^ndigit - 1\<close>.
\<close>

theorem encode_never_rejects_large_operands:
  assumes "1 \<le> nd"
  shows "(isl (encode nd a b) \<longleftrightarrow> a < 0 \<or> b < 0) \<and>
         (0 \<le> a \<and> 0 \<le> b \<longrightarrow>
            (\<exists>dix. encode nd a b = Inr dix \<and> 3 * nd + 1 \<le> length dix \<and>
                   (length dix = 3 * nd + 1 \<longleftrightarrow> a \<le> 10 ^ nd - 1 \<and> b \<le> 10 ^ nd - 1)))"
proof (cases "a < 0 \<or> b < 0")
  case True
  then show ?thesis
    using encode_negative [OF True, of nd] by auto
next
  case False
  then have ab: "0 \<le> a" "0 \<le> b" by simp_all
  from assms have "0 < nd" by simp
  from encode_length_iff [OF this ab] False show ?thesis
    by auto
qed

theorem encode_never_rejects_large_operands_witness:
  "(isl (encode 2 100 5) \<longleftrightarrow> (100::int) < 0 \<or> (5::int) < 0) \<and>
   (\<exists>dix. encode 2 100 5 = Inr dix \<and> 3 * 2 + 1 \<le> length dix \<and>
          (length dix = 3 * 2 + 1 \<longleftrightarrow> (100::int) \<le> 10 ^ 2 - 1 \<and> (5::int) \<le> 10 ^ 2 - 1))"
  using encode_never_rejects_large_operands [of 2 100 5] by simp

text \<open>The claim as stated fails at \<open>ndigit = 2\<close>, \<open>a = 100\<close>, \<open>b = 5\<close>: \<open>a\<close> exceeds
  \<open>10^2 - 1\<close>, and encoding returns \<open>[1, 0, 0, 0, 5, 1, 0, 5]\<close>.\<close>

theorem encode_large_operand_counterexample:
  "\<not> (isl (encode 2 100 5) \<longleftrightarrow> (10 ^ 2 - 1 < (100::int) \<or> 10 ^ 2 - 1 < (5::int)))"
proof -
  have "encode 2 100 5 = Inr [1, 0, 0, 0, 5, 1, 0, 5]"
    by code_simp
  then show ?thesis by simp
qed

text \<open>
  Claim C8 (lengths of the training pair). For every \<open>ndigit \<ge> 1\<close> and every valid
  index of a constructed dataset, \<open>x\<close> and \<open>y\<close> both have length \<open>3*ndigit\<close>, which is
  the dataset's \<open>block_size\<close>.
\<close>

theorem training_pair_lengths:
  assumes "1 \<le> nd"
    and "permutation_of_range perm ((10 ^ nd) ^ 2)"
    and "AdditionDataset_init perm nd sp = Inr ds"
    and "- int (AdditionDataset_len ds) \<le> i" and "i < int (AdditionDataset_len ds)"
  shows "\<exists>x y. AdditionDataset_getitem ds i = Inr (x, y) \<and>
               length x = 3 * nd \<and> length y = 3 * nd \<and> block_size ds = 3 * nd"
proof -
  from AdditionDataset_init_invariant [OF assms(2,3)]
  have inv: "ndigit ds = nd" "block_size ds = 3 * nd" "set (ixes ds) \<subseteq> {0..<10 ^ (2 * nd)}"
    by simp_all
  have "\<exists>k dix. k \<in> set (ixes ds) \<and> array_index (ixes ds) i = Inr k \<and>
           encode (ndigit ds) (fst (index_to_problem (ndigit ds) k))
             (snd (index_to_problem (ndigit ds) k)) = Inr dix \<and>
           length dix = 3 * ndigit ds + 1 \<and> (\<forall>d\<in>set dix. 0 \<le> d \<and> d \<le> 9) \<and>
           AdditionDataset_getitem ds i =
             Inr (butlast dix, replicate (2 * ndigit ds - 1) (- 100) @ drop (2 * ndigit ds - 1) (tl dix))"
    using assms(1,4,5) inv by (intro getitem_valid) (simp_all add: AdditionDataset_len_def)
  then obtain dix where len: "length dix = 3 * nd + 1"
    and get: "AdditionDataset_getitem ds i =
             Inr (butlast dix, replicate (2 * nd - 1) (- 100) @ drop (2 * nd - 1) (tl dix))"
    unfolding inv(1) by blast
  have "length (butlast dix) = 3 * nd"
    using len by simp
  moreover have "length (replicate (2 * nd - 1) (- 100 :: int) @ drop (2 * nd - 1) (tl dix)) = 3 * nd"
    using len by simp
  ultimately show ?thesis using get inv(2) by blast
qed

theorem training_pair_lengths_witness:
  "(1::nat) \<le> 1 \<and> permutation_of_range (rev [0..99]) ((10 ^ 1) ^ 2) \<and>
   (\<exists>ds. AdditionDataset_init (rev [0..99]) 1 ''test'' = Inr ds \<and>
      - int (AdditionDataset_len ds) \<le> 19 \<and> 19 < int (AdditionDataset_len ds) \<and>
      (\<exists>x y. AdditionDataset_getitem ds 19 = Inr (x, y) \<and>
               length x = 3 * 1 \<and> length y = 3 * 1 \<and> block_size ds = 3 * 1))"
proof -
  let ?ds = "\<lparr> split = ''test'', ndigit = 1, vocab_size = 10, block_size = 3,
           ixes = take 20 (rev [0..99]) \<rparr>"
  have h: "(1::nat) \<le> 1" by simp
  have lo: "- int (AdditionDataset_len ?ds) \<le> 19" by simp
  have hi: "19 < int (AdditionDataset_len ?ds)" unfolding example_test_len by simp
  from training_pair_lengths [OF h example_permutation example_test_dataset lo hi]
    h example_permutation example_test_dataset lo hi
  show ?thesis by blast
qed

text \<open>
  Claim C9 (any split other than \<open>test\<close>). For every string \<open>sp\<close> other than
  \<open>test\<close>, constructing with \<open>sp\<close> and constructing with \<open>train\<close> either both raise
  the same error or give datasets with the same \<open>ixes\<close>.
\<close>

theorem other_split_is_train:
  assumes "sp \<noteq> ''test''"
  shows "map_sum id ixes (AdditionDataset_init perm nd sp) =
         map_sum id ixes (AdditionDataset_init perm nd ''train'')"
  using assms
  by (simp add: AdditionDataset_init_def Let_def split: sum.splits)

theorem other_split_is_train_witness:
  "''Test'' \<noteq> ''test'' \<and>
   map_sum id ixes (AdditionDataset_init (rev [0..99]) 1 ''Test'') =
   map_sum id ixes (AdditionDataset_init (rev [0..99]) 1 ''train'')"
proof -
  have h: "''Test'' \<noteq> ''test''" by simp
  from other_split_is_train [OF h] h show ?thesis by blast
qed

text \<open>
  Claim C10 (range of the tokens). For every valid index of a constructed dataset,
  every element of \<open>x\<close> is a digit between 0 and 9, hence below \<open>vocab_size\<close>, and
  every element of \<open>y\<close> is \<open>-100\<close> or a digit between 0 and 9.
\<close>

theorem token_range:
  assumes "1 \<le> nd"
    and "permutation_of_range perm ((10 ^ nd) ^ 2)"
    and "AdditionDataset_init perm nd sp = Inr ds"
    and "- int (AdditionDataset_len ds) \<le> i" and "i < int (AdditionDataset_len ds)"
  shows "\<exists>x y. AdditionDataset_getitem ds i = Inr (x, y) \<and>
               (\<forall>t\<in>set x. 0 \<le> t \<and> t \<le> 9 \<and> t < int (vocab_size ds)) \<and>
               (\<forall>t\<in>set y. t = - 100 \<or> (0 \<le> t \<and> t \<le> 9))"
proof -
  from AdditionDataset_init_invariant [OF assms(2,3)]
  have inv: "ndigit ds = nd" "vocab_size ds = 10" "set (ixes ds) \<subseteq> {0..<10 ^ (2 * nd)}"
    by simp_all
  have "\<exists>k dix. k \<in> set (ixes ds) \<and> array_index (ixes ds) i = Inr k \<and>
           encode (ndigit ds) (fst (index_to_problem (ndigit ds) k))
             (snd (index_to_problem (ndigit ds) k)) = Inr dix \<and>
           length dix = 3 * ndigit ds + 1 \<and> (\<forall>d\<in>set dix. 0 \<le> d \<and> d \<le> 9) \<and>
           AdditionDataset_getitem ds i =
             Inr (butlast dix, replicate (2 * ndigit ds - 1) (- 100) @ drop (2 * ndigit ds - 1) (tl dix))"
    using assms(1,4,5) inv by (intro getitem_valid) (simp_all add: AdditionDataset_len_def)
  then obtain dix where dig: "\<forall>d\<in>set dix. 0 \<le> d \<and> d \<le> 9"
    and get: "AdditionDataset_getitem ds i =
             Inr (butlast dix, replicate (2 * nd - 1) (- 100) @ drop (2 * nd - 1) (tl dix))"
    unfolding inv(1) by blast
  have "set (butlast dix) \<subseteq> set dix"
    by (auto dest: in_set_butlastD)
  with dig have "\<forall>t\<in>set (butlast dix). 0 \<le> t \<and> t \<le> 9 \<and> t < 10"
    by fastforce
  then have x: "\<forall>t\<in>set (butlast dix). 0 \<le> t \<and> t \<le> 9 \<and> t < int (vocab_size ds)"
    by (simp add: inv(2))
  have "set (tl dix) \<subseteq> set dix"
    by (cases dix) auto
  then have "set (drop (2 * nd - 1) (tl dix)) \<subseteq> set dix"
    using set_drop_subset by fastforce
  with dig have y: "\<forall>t\<in>set (replicate (2 * nd - 1) (- 100) @ drop (2 * nd - 1) (tl dix)).
      t = - 100 \<or> (0 \<le> t \<and> t \<le> 9)"
    by auto
  from get x y show ?thesis by blast
qed

theorem token_range_witness:
  "(1::nat) \<le> 1 \<and> permutation_of_range (rev [0..99]) ((10 ^ 1) ^ 2) \<and>
   (\<exists>ds. AdditionDataset_init (rev [0..99]) 1 ''train'' = Inr ds \<and>
      - int (AdditionDataset_len ds) \<le> - 1 \<and> - 1 < int (AdditionDataset_len ds) \<and>
      (\<exists>x y. AdditionDataset_getitem ds (- 1) = Inr (x, y) \<and>
               (\<forall>t\<in>set x. 0 \<le> t \<and> t \<le> 9 \<and> t < int (vocab_size ds)) \<and>
               (\<forall>t\<in>set y. t = - 100 \<or> (0 \<le> t \<and> t \<le> 9))))"
proof -
  let ?ds = "\<lparr> split = ''train'', ndigit = 1, vocab_size = 10, block_size = 3,
           ixes = drop 20 (rev [0..99]) \<rparr>"
  have h: "(1::nat) \<le> 1" by simp
  have lo: "- int (AdditionDataset_len ?ds) \<le> - 1" by (simp add: AdditionDataset_len_def)
  have hi: "- 1 < int (AdditionDataset_len ?ds)" by simp
  from token_range [OF h example_permutation example_train_dataset lo hi]
    h example_permutation example_train_dataset lo hi
  show ?thesis by blast
qed

end
